theory Spec2Isabelle
  imports Main
begin

section \<open>Pet Finder: the data model of \<^verbatim>\<open>pet_finder.js\<close>\<close>

text \<open>
  The program keeps an in-memory roster of pets (class \<^verbatim>\<open>AnimalShelter\<close>) and drives it
  from a prompt loop (class \<^verbatim>\<open>UserInterface\<close>). The embedding follows the source
  function by function.

  Modelling decisions.
  \<^item> A \<^verbatim>\<open>Pet\<close> object is a record; the array \<^verbatim>\<open>pets\<close> is a list of records. Every array
    slot holds a Pet object of its own, as in \<^verbatim>\<open>ProjectDriver.run\<close>, which builds eight
    distinct objects: one object stored in two slots is outside the model.
  \<^item> \<^verbatim>\<open>count\<close> is a natural number (the only construction site passes \<^verbatim>\<open>pets.length\<close>).
  \<^item> A JavaScript argument that may be \<^verbatim>\<open>undefined\<close> is a \<open>string option\<close>, \<open>None\<close> for
    \<^verbatim>\<open>undefined\<close>. Only \<^verbatim>\<open>undefined\<close> and the empty string are falsy.
  \<^item> Reading \<^verbatim>\<open>this.pets[i]\<close> beyond the end of the array yields \<^verbatim>\<open>undefined\<close>, and the
    property access on it that follows throws a TypeError: the error is a value of the
    model, and writes and output made before the throw are kept.
  \<^item> A string is a list of characters, and a character is a code point below 256 (Basic
    Latin and Latin-1 Supplement); strings with other code points are outside the model.
    On these strings \<^verbatim>\<open>String.prototype.toLowerCase\<close> adds 32 to the code points of the
    upper-case letters, which are 65 to 90 and 192 to 222 without 215 (the multiplication
    sign), and leaves every other character alone. No proof below looks inside it except
    the ones that evaluate it on concrete names.
\<close>

datatype error = TypeError

record Pet =
  name :: string
  type :: string
  breed :: string
  is_available :: bool

record AnimalShelter =
  pets :: "Pet list"
  count :: nat

text \<open>JavaScript truthiness of a value that is a string or \<^verbatim>\<open>undefined\<close>.\<close>

fun truthy :: "string option \<Rightarrow> bool" where
  "truthy None = False"
| "truthy (Some s) = (s \<noteq> [])"

text \<open>\<^verbatim>\<open>x === v\<close> for a string \<open>x\<close> and a value \<open>v\<close> that is a string or \<^verbatim>\<open>undefined\<close>.\<close>

fun strict_eq :: "string \<Rightarrow> string option \<Rightarrow> bool" where
  "strict_eq x None = False"
| "strict_eq x (Some v) = (x = v)"

definition lower_char :: "char \<Rightarrow> char" where
  "lower_char c =
     (let u = (of_char c :: nat) in
      if (65 \<le> u \<and> u \<le> 90) \<or> (192 \<le> u \<and> u \<le> 222 \<and> u \<noteq> 215) then char_of (u + 32)
      else c)"

definition toLowerCase :: "string \<Rightarrow> string" where
  "toLowerCase s = map lower_char s"

subsection \<open>\<^verbatim>\<open>AnimalShelter.add\<close>\<close>

text \<open>\<^verbatim>\<open>this.pets.push( pet )\<close>: the array grows by one; \<^verbatim>\<open>count\<close> is not written.\<close>

definition add :: "AnimalShelter \<Rightarrow> Pet \<Rightarrow> AnimalShelter" where
  "add s pet = s\<lparr>pets := pets s @ [pet]\<rparr>"

subsection \<open>\<^verbatim>\<open>AnimalShelter.search\<close>\<close>

text \<open>
  Each of the four branches of \<^verbatim>\<open>search\<close> runs the loop
  \<^verbatim>\<open>for (let i = 0; i < this.count; i++) { let pet = this.pets[i]; if (c) results.push(pet); }\<close>
  with a condition \<open>c\<close> of its own. \<open>search_loop\<close> is that loop from index \<open>i\<close> on; every
  condition reads a property of \<^verbatim>\<open>pet\<close> first, so a slot beyond the array throws.
\<close>

function search_loop ::
  "(Pet \<Rightarrow> bool) \<Rightarrow> Pet list \<Rightarrow> nat \<Rightarrow> nat \<Rightarrow> Pet list \<Rightarrow> error + Pet list" where
  "search_loop c ps cnt i results =
     (if i < cnt then
        (if i < length ps then
           (let pet = ps ! i in
            search_loop c ps cnt (i + 1) (if c pet then results @ [pet] else results))
         else Inl TypeError)
      else Inr results)"
  by pat_completeness auto
termination
  by (relation "measure (\<lambda>(c, ps, cnt, i, results). cnt - i)") auto

declare search_loop.simps [simp del]

definition search :: "AnimalShelter \<Rightarrow> string option \<Rightarrow> string option \<Rightarrow> error + Pet list" where
  "search s t b =
     (if truthy t \<and> truthy b then
        search_loop (\<lambda>pet. strict_eq (type pet) t \<and> strict_eq (breed pet) b \<and> is_available pet)
          (pets s) (count s) 0 []
      else if truthy t \<and> \<not> truthy b then
        search_loop (\<lambda>pet. strict_eq (type pet) t \<and> is_available pet) (pets s) (count s) 0 []
      else if \<not> truthy t \<and> truthy b then
        search_loop (\<lambda>pet. strict_eq (breed pet) b \<and> is_available pet) (pets s) (count s) 0 []
      else
        search_loop (\<lambda>pet. is_available pet) (pets s) (count s) 0 [])"

subsection \<open>\<^verbatim>\<open>AnimalShelter.adopt\<close>\<close>

text \<open>
  The loop of \<^verbatim>\<open>adopt\<close> from index \<open>i\<close> on, with the local \<^verbatim>\<open>result\<close>. The condition is
  \<^verbatim>\<open>name && pet.name.toLowerCase() === name.toLowerCase() && pet.is_available\<close>: with a
  falsy name it short-circuits before \<^verbatim>\<open>pet\<close> is touched, with a truthy one
  \<^verbatim>\<open>pet.name\<close> throws on a slot beyond the array. The pets written before a throw stay
  written, so the array is returned in both cases.
\<close>

function adopt_loop ::
  "string option \<Rightarrow> Pet list \<Rightarrow> nat \<Rightarrow> nat \<Rightarrow> bool \<Rightarrow> (error + bool) \<times> Pet list" where
  "adopt_loop n ps cnt i result =
     (if i < cnt then
        (case n of
           None \<Rightarrow> adopt_loop n ps cnt (i + 1) result
         | Some nm \<Rightarrow>
             if nm = [] then adopt_loop n ps cnt (i + 1) result
             else if i < length ps then
               (let pet = ps ! i in
                if toLowerCase (name pet) = toLowerCase nm \<and> is_available pet
                then adopt_loop n (ps[i := pet\<lparr>is_available := False\<rparr>]) cnt (i + 1) True
                else adopt_loop n ps cnt (i + 1) result)
             else (Inl TypeError, ps))
      else (Inr result, ps))"
  by pat_completeness auto
termination
  by (relation "measure (\<lambda>(n, ps, cnt, i, result). cnt - i)") auto

declare adopt_loop.simps [simp del]

definition adopt :: "AnimalShelter \<Rightarrow> string option \<Rightarrow> (error + bool) \<times> AnimalShelter" where
  "adopt s n =
     (case adopt_loop n (pets s) (count s) 0 False of
        (r, ps) \<Rightarrow> (r, s\<lparr>pets := ps\<rparr>))"

section \<open>The prompt loop of \<^verbatim>\<open>UserInterface.interact\<close>\<close>

text \<open>
  The console is the list of the arguments of the \<^verbatim>\<open>console.log\<close> calls made so far.
  \<^verbatim>\<open>prompt.get\<close> registers a callback and returns; the callback later receives
  \<^verbatim>\<open>result\<close>, which is \<^verbatim>\<open>undefined\<close> (\<open>None\<close>) when the read failed or the input ended, and
  otherwise an object whose requested property is a string (\<open>Some\<close> of it).
\<close>

definition pet_line :: "Pet \<Rightarrow> string" where
  "pet_line pet = name pet @ '', '' @ type pet @ '', '' @ breed pet"

subsection \<open>\<^verbatim>\<open>displayShelterAnimals\<close>\<close>

function display_loop ::
  "Pet list \<Rightarrow> nat \<Rightarrow> nat \<Rightarrow> string list \<Rightarrow> (error + unit) \<times> string list" where
  "display_loop ps cnt i out =
     (if i < cnt then
        (if i < length ps then
           (let pet = ps ! i in
            display_loop ps cnt (i + 1) (if is_available pet then out @ [pet_line pet] else out))
         else (Inl TypeError, out))
      else (Inr (), out))"
  by pat_completeness auto
termination
  by (relation "measure (\<lambda>(ps, cnt, i, out). cnt - i)") auto

declare display_loop.simps [simp del]

definition displayShelterAnimals ::
  "AnimalShelter \<Rightarrow> string list \<Rightarrow> (error + unit) \<times> string list" where
  "displayShelterAnimals s out =
     (let out1 = out @ [''\<newline>Pets available for adoption:''] in
      if count s = 0 then (Inr (), out1 @ [''No pets are currently available.''])
      else display_loop (pets s) (count s) 0 out1)"

subsection \<open>The prompts and their callbacks\<close>

text \<open>
  Which callback is outstanding (\<open>Waiting\<close>), or how the program stopped: \<open>Ended\<close> when
  a callback returns without a new \<^verbatim>\<open>prompt.get\<close>, \<open>Thrown\<close> when a callback throws.
\<close>

datatype prompt = Ask | AskType | AskBreed string | AskName

datatype control = Waiting prompt | Ended | Thrown error

type_synonym ui = "control \<times> AnimalShelter \<times> string list"

definition instructions :: string where
  "instructions =
     ''\<newline>* Enter 1 to see available pets\<newline>* Enter 2 to search for a pet by type and breed\<newline>* Enter 3 to adopt the pet by name\<newline>* Enter 4 to exit\<newline>''"

definition ask :: "AnimalShelter \<Rightarrow> string list \<Rightarrow> ui" where
  "ask s out = (Waiting Ask, s, out @ [instructions])"

definition askType :: "AnimalShelter \<Rightarrow> string list \<Rightarrow> ui" where
  "askType s out = (Waiting AskType, s, out @ [''Enter the type:''])"

definition askBreed :: "string \<Rightarrow> AnimalShelter \<Rightarrow> string list \<Rightarrow> ui" where
  "askBreed t s out = (Waiting (AskBreed t), s, out)"

definition askName :: "AnimalShelter \<Rightarrow> string list \<Rightarrow> ui" where
  "askName s out =
     (Waiting AskName, s, out @ [''Enter the name of the pet you want to adopt:''])"

text \<open>The callback of \<^verbatim>\<open>ask\<close>: guarded by \<^verbatim>\<open>if ( result )\<close>.\<close>

definition ask_callback :: "string option \<Rightarrow> AnimalShelter \<Rightarrow> string list \<Rightarrow> ui" where
  "ask_callback result s out =
     (case result of
        None \<Rightarrow> ask s out
      | Some selection \<Rightarrow>
          if selection = ''1'' then
            (case displayShelterAnimals s out of
               (Inl e, out') \<Rightarrow> (Thrown e, s, out')
             | (Inr u, out') \<Rightarrow> ask s out')
          else if selection = ''2'' then
            askType s (out @ [''Enter the type of pet (dog or cat):''])
          else if selection = ''3'' then askName s out
          else if selection = ''4'' then (Ended, s, out @ [''Exiting the program.''])
          else ask s out)"

text \<open>The callback of \<^verbatim>\<open>askType\<close> reads \<^verbatim>\<open>result.type\<close> with no guard.\<close>

definition askType_callback :: "string option \<Rightarrow> AnimalShelter \<Rightarrow> string list \<Rightarrow> ui" where
  "askType_callback result s out =
     (case result of
        None \<Rightarrow> (Thrown TypeError, s, out)
      | Some t \<Rightarrow>
          if t = ''cat'' \<or> t = ''dog'' then askBreed t s out else askBreed [] s out)"

text \<open>The inner loop of \<^verbatim>\<open>askBreed\<close> over the search results.\<close>

fun log_available :: "Pet list \<Rightarrow> string list \<Rightarrow> string list" where
  "log_available [] out = out"
| "log_available (pet # rest) out =
     log_available rest (if is_available pet then out @ [pet_line pet] else out)"

text \<open>The callback of \<^verbatim>\<open>askBreed\<close> reads \<^verbatim>\<open>result.breed\<close> with no guard.\<close>

definition askBreed_callback ::
  "string \<Rightarrow> string option \<Rightarrow> AnimalShelter \<Rightarrow> string list \<Rightarrow> ui" where
  "askBreed_callback t result s out =
     (case result of
        None \<Rightarrow> (Thrown TypeError, s, out)
      | Some b \<Rightarrow>
          (case search s (Some t) (Some b) of
             Inl e \<Rightarrow> (Thrown e, s, out)
           | Inr found \<Rightarrow>
               ask s
                 (if found \<noteq> [] then log_available found out
                  else if t \<noteq> [] \<and> b \<noteq> [] then
                    out @ [''No pets are available for selected type ('' @ t @ '' and breed '' @ b @ ''.'']
                  else if t \<noteq> [] \<and> b = [] then
                    out @ [''No pets are available for selected type ('' @ t @ ''.'']
                  else if t = [] \<and> b \<noteq> [] then
                    out @ [''No pets are available for selected breed ('' @ b @ ''.'']
                  else out @ [''No pets are available.''])))"

text \<open>
  The callback of \<^verbatim>\<open>askName\<close>: guarded by \<^verbatim>\<open>if ( result )\<close>, with no \<^verbatim>\<open>else\<close>, so an
  undefined result registers no further prompt.
\<close>

definition askName_callback :: "string option \<Rightarrow> AnimalShelter \<Rightarrow> string list \<Rightarrow> ui" where
  "askName_callback result s out =
     (case result of
        None \<Rightarrow> (Ended, s, out)
      | Some nm \<Rightarrow>
          if nm \<noteq> [] then
            (case adopt s (Some nm) of
               (Inl e, s') \<Rightarrow> (Thrown e, s', out)
             | (Inr is_adopted, s') \<Rightarrow>
                 ask s'
                   (if is_adopted then out @ [''Congratulations! You adopted '' @ nm @ ''.'']
                    else out @
                      [''Something went wrong. Please check that the name is spelled correctly.'',
                       ''Pet trying to adopt is '' @ nm @ ''.'']))
          else
            ask s
              (out @ [''You must specify a valid name in order to adopt a pet. Please try again.'']))"

fun callback :: "prompt \<Rightarrow> string option \<Rightarrow> AnimalShelter \<Rightarrow> string list \<Rightarrow> ui" where
  "callback Ask result s out = ask_callback result s out"
| "callback AskType result s out = askType_callback result s out"
| "callback (AskBreed t) result s out = askBreed_callback t result s out"
| "callback AskName result s out = askName_callback result s out"

text \<open>
  The program on a finite sequence of results, one per callback invoked: it stops
  early when no callback is outstanding, and is left waiting when the results run out.
\<close>

fun run :: "ui \<Rightarrow> string option list \<Rightarrow> ui" where
  "run (Waiting p, s, out) (result # results) = run (callback p result s out) results"
| "run u results = u"

definition interact :: "AnimalShelter \<Rightarrow> string option list \<Rightarrow> ui" where
  "interact s results = run (ask s [[], ''*** Welcome to Pet Finder! ***'']) results"

section \<open>The seed of \<^verbatim>\<open>ProjectDriver.run\<close>\<close>

definition Luna :: Pet where
  "Luna = \<lparr>name = ''Luna'', type = ''dog'', breed = ''Golden Retriever'', is_available = True\<rparr>"

definition Teddy :: Pet where
  "Teddy = \<lparr>name = ''Teddy'', type = ''dog'', breed = ''Labrador'', is_available = True\<rparr>"

definition Charlie :: Pet where
  "Charlie = \<lparr>name = ''Charlie'', type = ''dog'', breed = ''Golden Retriever'', is_available = True\<rparr>"

definition Aster :: Pet where
  "Aster = \<lparr>name = ''Aster'', type = ''dog'', breed = ''Husky'', is_available = True\<rparr>"

definition Goldie :: Pet where
  "Goldie = \<lparr>name = ''Goldie'', type = ''cat'', breed = ''Shorthair'', is_available = True\<rparr>"

definition Lisa :: Pet where
  "Lisa = \<lparr>name = ''Lisa'', type = ''cat'', breed = ''Longhair'', is_available = True\<rparr>"

definition Timmy :: Pet where
  "Timmy = \<lparr>name = ''Timmy'', type = ''cat'', breed = ''Siamese'', is_available = True\<rparr>"

definition Oliver :: Pet where
  "Oliver = \<lparr>name = ''Oliver'', type = ''cat'', breed = ''Shorthair'', is_available = True\<rparr>"

text \<open>\<^verbatim>\<open>new AnimalShelter(pets, pets.length)\<close> on the eight pets pushed by \<^verbatim>\<open>run\<close>.\<close>

definition seed_pets :: "Pet list" where
  "seed_pets = [Luna, Teddy, Charlie, Aster, Goldie, Lisa, Timmy, Oliver]"

definition animal_shelter :: AnimalShelter where
  "animal_shelter = \<lparr>pets = seed_pets, count = length seed_pets\<rparr>"

section \<open>Predicates and operations used by the statements\<close>

text \<open>
  The filters of the specification: a filter that is absent or empty is a wildcard, a
  filter that is set demands equality of strings; only available pets match.
\<close>

definition wildcard :: "string option \<Rightarrow> bool" where
  "wildcard f = (f = None \<or> f = Some [])"

definition matches :: "string option \<Rightarrow> string option \<Rightarrow> Pet \<Rightarrow> bool" where
  "matches t b pet =
     (is_available pet \<and> (wildcard t \<or> t = Some (type pet)) \<and> (wildcard b \<or> b = Some (breed pet)))"

text \<open>The condition of the loop of \<^verbatim>\<open>adopt\<close> on a pet that is there.\<close>

fun adopt_cond :: "string option \<Rightarrow> Pet \<Rightarrow> bool" where
  "adopt_cond None pet = False"
| "adopt_cond (Some nm) pet =
     (nm \<noteq> [] \<and> toLowerCase (name pet) = toLowerCase nm \<and> is_available pet)"

text \<open>
  The operations of a shelter and the shelter each leaves behind. \<^verbatim>\<open>search\<close> and
  \<^verbatim>\<open>displayShelterAnimals\<close> assign to no field of the shelter or of a pet; \<^verbatim>\<open>adopt\<close>
  leaves its writes behind also when it throws.
\<close>

datatype operation =
  Add Pet | Search "string option" "string option" | Adopt "string option" | Listing

fun perform :: "AnimalShelter \<Rightarrow> operation \<Rightarrow> AnimalShelter" where
  "perform s (Add pet) = add s pet"
| "perform s (Search t b) = s"
| "perform s (Adopt n) = snd (adopt s n)"
| "perform s Listing = s"

text \<open>
  What has to survive from an array \<open>ps\<close> into a later array \<open>ps'\<close>: every pet at its
  index, with its name, type and breed, and available only if it was.
\<close>

definition kept :: "Pet list \<Rightarrow> Pet list \<Rightarrow> bool" where
  "kept ps ps' =
     (length ps \<le> length ps' \<and>
      (\<forall>i<length ps.
         name (ps' ! i) = name (ps ! i) \<and> type (ps' ! i) = type (ps ! i) \<and>
         breed (ps' ! i) = breed (ps ! i) \<and>
         (is_available (ps' ! i) \<longrightarrow> is_available (ps ! i))))"

section \<open>The loops\<close>

subsection \<open>The loop of \<^verbatim>\<open>search\<close>\<close>

lemma search_loop_in_range:
  "cnt \<le> length ps \<Longrightarrow>
   search_loop c ps cnt i results = Inr (results @ filter c (take (cnt - i) (drop i ps)))"
proof (induction c ps cnt i results rule: search_loop.induct)
  case (1 c ps cnt i results)
  show ?case
  proof (cases "i < cnt")
    case False
    then show ?thesis by (simp add: search_loop.simps)
  next
    case True
    with "1.prems" have il: "i < length ps" by simp
    from True have ci: "cnt - i = Suc (cnt - (i + 1))" by simp
    have split: "take (cnt - i) (drop i ps) = ps ! i # take (cnt - (i + 1)) (drop (i + 1) ps)"
      using il by (simp only: ci) (simp add: Cons_nth_drop_Suc [symmetric])
    have "search_loop c ps cnt i results =
          search_loop c ps cnt (i + 1) (if c (ps ! i) then results @ [ps ! i] else results)"
      using True il by (subst search_loop.simps) (simp add: Let_def)
    also have "\<dots> = Inr ((if c (ps ! i) then results @ [ps ! i] else results)
                         @ filter c (take (cnt - (i + 1)) (drop (i + 1) ps)))"
      using "1.IH" [OF True il refl "1.prems"] .
    also have "\<dots> = Inr (results @ filter c (take (cnt - i) (drop i ps)))"
      by (simp add: split)
    finally show ?thesis .
  qed
qed

lemma search_loop_out_of_range:
  "length ps < cnt \<Longrightarrow> i \<le> length ps \<Longrightarrow> search_loop c ps cnt i results = Inl TypeError"
proof (induction c ps cnt i results rule: search_loop.induct)
  case (1 c ps cnt i results)
  show ?case
  proof (cases "i < length ps")
    case False
    with "1.prems" show ?thesis by (subst search_loop.simps) simp
  next
    case True
    with "1.prems" have ic: "i < cnt" by simp
    have "search_loop c ps cnt i results =
          search_loop c ps cnt (i + 1) (if c (ps ! i) then results @ [ps ! i] else results)"
      using True ic by (subst search_loop.simps) (simp add: Let_def)
    also have "\<dots> = Inl TypeError"
      using "1.IH" [OF ic True refl "1.prems"(1)] True by simp
    finally show ?thesis .
  qed
qed

lemma search_counted:
  assumes "count s \<le> length (pets s)"
  shows "search s t b = Inr (filter (matches t b) (take (count s) (pets s)))"
proof -
  have eq: "\<And>c. search_loop c (pets s) (count s) 0 [] = Inr (filter c (take (count s) (pets s)))"
    using search_loop_in_range [OF assms, of _ 0 "[]"] by simp
  show ?thesis
    by (cases t; cases b)
      (auto simp: search_def eq matches_def wildcard_def intro: filter_cong)
qed

lemma search_out_of_range:
  assumes "length (pets s) < count s"
  shows "search s t b = Inl TypeError"
  by (simp add: search_def search_loop_out_of_range [OF assms])

subsection \<open>The loop of \<^verbatim>\<open>adopt\<close>\<close>

lemma adopt_loop_falsy: "\<not> truthy n \<Longrightarrow> adopt_loop n ps cnt i r = (Inr r, ps)"
proof (induction n ps cnt i r rule: adopt_loop.induct)
  case (1 n ps cnt i result)
  then show ?case
    by (subst adopt_loop.simps) (auto split: option.splits)
qed

lemma adopt_loop_length: "length (snd (adopt_loop n ps cnt i r)) = length ps"
proof (induction n ps cnt i r rule: adopt_loop.induct)
  case (1 n ps cnt i result)
  then show ?case
    by (subst adopt_loop.simps) (auto simp: Let_def split: option.splits)
qed

lemma adopt_loop_nth:
  "j < length ps \<Longrightarrow>
   snd (adopt_loop n ps cnt i r) ! j =
     (if i \<le> j \<and> j < cnt \<and> adopt_cond n (ps ! j) then (ps ! j)\<lparr>is_available := False\<rparr>
      else ps ! j)"
proof (induction n ps cnt i r rule: adopt_loop.induct)
  case (1 n ps cnt i result)
  show ?case
  proof (cases "i < cnt")
    case False
    then show ?thesis by (subst adopt_loop.simps) auto
  next
    case True
    show ?thesis
    proof (cases "truthy n")
      case False
      then show ?thesis by (cases n) (simp_all add: adopt_loop_falsy)
    next
      case tr: True
      then obtain nm where n: "n = Some nm" and nm: "nm \<noteq> []" by (cases n) auto
      show ?thesis
      proof (cases "i < length ps")
        case False
        with "1.prems" True n nm show ?thesis by (subst adopt_loop.simps) simp
      next
        case il: True
        show ?thesis
        proof (cases "toLowerCase (name (ps ! i)) = toLowerCase nm \<and> is_available (ps ! i)")
          case c: True
          have step: "adopt_loop n ps cnt i result =
                adopt_loop n (ps[i := (ps ! i)\<lparr>is_available := False\<rparr>]) cnt (i + 1) True"
            using True n nm il c by (subst adopt_loop.simps) (simp add: Let_def)
          have "j < length (ps[i := (ps ! i)\<lparr>is_available := False\<rparr>])"
            using "1.prems" by simp
          note IH = "1.IH"(3) [OF True n nm il refl c this]
          show ?thesis
          proof (cases "j = i")
            case True
            with IH il c n nm \<open>i < cnt\<close> show ?thesis unfolding step by simp
          next
            case False
            then have "(i + 1 \<le> j) = (i \<le> j)" by auto
            with IH False show ?thesis unfolding step by simp
          qed
        next
          case c: False
          have step: "adopt_loop n ps cnt i result = adopt_loop n ps cnt (i + 1) result"
            using True n nm il c by (subst adopt_loop.simps) (auto simp add: Let_def)
          note IH = "1.IH"(4) [OF True n nm il refl c "1.prems"]
          show ?thesis
          proof (cases "j = i")
            case True
            with IH c n nm show ?thesis unfolding step by auto
          next
            case False
            then have "(i + 1 \<le> j) = (i \<le> j)" by auto
            with IH show ?thesis unfolding step by simp
          qed
        qed
      qed
    qed
  qed
qed

lemma adopt_loop_fst:
  "cnt \<le> length ps \<Longrightarrow>
   fst (adopt_loop n ps cnt i r) = Inr (r \<or> (\<exists>j. i \<le> j \<and> j < cnt \<and> adopt_cond n (ps ! j)))"
proof (induction n ps cnt i r rule: adopt_loop.induct)
  case (1 n ps cnt i result)
  show ?case
  proof (cases "i < cnt")
    case False
    then show ?thesis by (subst adopt_loop.simps) auto
  next
    case True
    show ?thesis
    proof (cases "truthy n")
      case False
      then show ?thesis by (cases n) (simp_all add: adopt_loop_falsy)
    next
      case tr: True
      then obtain nm where n: "n = Some nm" and nm: "nm \<noteq> []" by (cases n) auto
      from True "1.prems" have il: "i < length ps" by simp
      show ?thesis
      proof (cases "toLowerCase (name (ps ! i)) = toLowerCase nm \<and> is_available (ps ! i)")
        case c: True
        have step: "adopt_loop n ps cnt i result =
              adopt_loop n (ps[i := (ps ! i)\<lparr>is_available := False\<rparr>]) cnt (i + 1) True"
          using True n nm il c by (subst adopt_loop.simps) (simp add: Let_def)
        have "cnt \<le> length (ps[i := (ps ! i)\<lparr>is_available := False\<rparr>])"
          using "1.prems" by simp
        from "1.IH"(3) [OF True n nm il refl c this] True n nm c
        show ?thesis unfolding step by auto
      next
        case c: False
        have step: "adopt_loop n ps cnt i result = adopt_loop n ps cnt (i + 1) result"
          using True n nm il c by (subst adopt_loop.simps) (auto simp add: Let_def)
        have ni: "\<not> adopt_cond n (ps ! i)"
          using c n nm by auto
        have "(\<exists>j. i \<le> j \<and> j < cnt \<and> adopt_cond n (ps ! j)) =
              (\<exists>j. i + 1 \<le> j \<and> j < cnt \<and> adopt_cond n (ps ! j))" (is "?L = ?R")
        proof
          assume ?L
          then obtain j where j: "i \<le> j" "j < cnt" "adopt_cond n (ps ! j)" by blast
          with ni have "i + 1 \<le> j" by (cases "j = i") auto
          with j show ?R by blast
        next
          assume ?R
          then obtain j where "i + 1 \<le> j" "j < cnt" "adopt_cond n (ps ! j)" by blast
          then have "i \<le> j \<and> j < cnt \<and> adopt_cond n (ps ! j)" by simp
          then show ?L by blast
        qed
        with "1.IH"(4) [OF True n nm il refl c "1.prems"]
        show ?thesis unfolding step by simp
      qed
    qed
  qed
qed

lemma adopt_loop_out_of_range:
  "truthy n \<Longrightarrow> length ps < cnt \<Longrightarrow> i \<le> length ps \<Longrightarrow>
   fst (adopt_loop n ps cnt i r) = Inl TypeError"
proof (induction n ps cnt i r rule: adopt_loop.induct)
  case (1 n ps cnt i result)
  from "1.prems" obtain nm where n: "n = Some nm" and nm: "nm \<noteq> []" by (cases n) auto
  from "1.prems" have ic: "i < cnt" by simp
  show ?case
  proof (cases "i < length ps")
    case False
    with ic n nm show ?thesis by (subst adopt_loop.simps) simp
  next
    case il: True
    show ?thesis
    proof (cases "toLowerCase (name (ps ! i)) = toLowerCase nm \<and> is_available (ps ! i)")
      case c: True
      have step: "adopt_loop n ps cnt i result =
            adopt_loop n (ps[i := (ps ! i)\<lparr>is_available := False\<rparr>]) cnt (i + 1) True"
        using ic n nm il c by (subst adopt_loop.simps) (simp add: Let_def)
      from "1.IH"(3) [OF ic n nm il refl c "1.prems"(1)] "1.prems" il
      show ?thesis unfolding step by simp
    next
      case c: False
      have step: "adopt_loop n ps cnt i result = adopt_loop n ps cnt (i + 1) result"
        using ic n nm il c by (subst adopt_loop.simps) (auto simp add: Let_def)
      from "1.IH"(4) [OF ic n nm il refl c "1.prems"(1)] "1.prems" il
      show ?thesis unfolding step by simp
    qed
  qed
qed


subsection \<open>\<^verbatim>\<open>adopt\<close> as a whole\<close>

lemma adopt_cond_flipped: "\<not> adopt_cond n (p\<lparr>is_available := False\<rparr>)"
  by (cases n) simp_all

lemma adopt_falsy: "\<not> truthy n \<Longrightarrow> adopt s n = (Inr False, s)"
  by (simp add: adopt_def adopt_loop_falsy)

lemma adopt_counted_fst:
  "count s \<le> length (pets s) \<Longrightarrow>
   fst (adopt s n) = Inr (\<exists>j<count s. adopt_cond n (pets s ! j))"
  using adopt_loop_fst [of "count s" "pets s" n 0 False]
  by (simp add: adopt_def split_beta)

lemma adopt_count: "count (snd (adopt s n)) = count s"
  by (simp add: adopt_def split_beta)

lemma adopt_length: "length (pets (snd (adopt s n))) = length (pets s)"
  by (simp add: adopt_def split_beta adopt_loop_length)

lemma adopt_nth:
  "j < length (pets s) \<Longrightarrow>
   pets (snd (adopt s n)) ! j =
     (if j < count s \<and> adopt_cond n (pets s ! j) then (pets s ! j)\<lparr>is_available := False\<rparr>
      else pets s ! j)"
  using adopt_loop_nth [of j "pets s" n "count s" 0 False]
  by (simp add: adopt_def split_beta)

lemma adopt_out_of_range:
  "truthy n \<Longrightarrow> length (pets s) < count s \<Longrightarrow> fst (adopt s n) = Inl TypeError"
  using adopt_loop_out_of_range [of n "pets s" "count s" 0 False]
  by (simp add: adopt_def split_beta)

lemma adopt_pets_map:
  assumes "count s = length (pets s)"
  shows "pets (snd (adopt s n)) =
         map (\<lambda>p. if adopt_cond n p then p\<lparr>is_available := False\<rparr> else p) (pets s)"
  by (rule nth_equalityI) (simp_all add: adopt_length adopt_nth assms)

lemma adopt_result_iff:
  assumes "count s = length (pets s)"
  shows "fst (adopt s n) = Inr (\<exists>p\<in>set (pets s). adopt_cond n p)"
proof -
  have "(\<exists>j<count s. adopt_cond n (pets s ! j)) = (\<exists>p\<in>set (pets s). adopt_cond n p)"
    unfolding assms by (metis in_set_conv_nth)
  with adopt_counted_fst [of s n] assms show ?thesis by simp
qed

lemma adopt_false_unchanged:
  assumes "fst (adopt s n) = Inr False"
  shows "snd (adopt s n) = s"
proof (cases "truthy n")
  case False
  then show ?thesis by (simp add: adopt_falsy)
next
  case True
  with assms have le: "count s \<le> length (pets s)"
    using adopt_out_of_range [of n s] by (cases "count s \<le> length (pets s)") auto
  with assms have none: "\<And>j. j < count s \<Longrightarrow> \<not> adopt_cond n (pets s ! j)"
    by (auto simp: adopt_counted_fst)
  have "pets (snd (adopt s n)) = pets s"
    by (rule nth_equalityI) (auto simp: adopt_length adopt_nth none)
  then show ?thesis
    by (simp add: adopt_def split_beta)
qed

section \<open>Searching\<close>

lemmas seed_defs = animal_shelter_def seed_pets_def Luna_def Teddy_def Charlie_def Aster_def
  Goldie_def Lisa_def Timmy_def Oliver_def

text \<open>
  Claim C2 says that \<^verbatim>\<open>search(t, b)\<close> returns exactly the pets that are available and
  satisfy the filters that are set. The code at the seed followed by
  \<^verbatim>\<open>add(new Pet("Rex", "dog", "Pug", true))\<close>: \<^verbatim>\<open>search("dog", "")\<close> returns the four dogs
  of the seed and \<^verbatim>\<open>search()\<close> the eight pets of the seed, both without Rex, who is in
  the array, is available and is a dog. The loops of \<^verbatim>\<open>search\<close> stop at \<^verbatim>\<open>count\<close>, which
  \<^verbatim>\<open>add\<close> leaves at eight: the defect of claim C1. Among the pets below \<^verbatim>\<open>count\<close> the
  filters work as the claim says (\<open>search_counted\<close>).
\<close>

theorem added_dog_missing_from_search:
  "search (add animal_shelter \<lparr>name = ''Rex'', type = ''dog'', breed = ''Pug'', is_available = True\<rparr>)
     (Some ''dog'') (Some []) = Inr [Luna, Teddy, Charlie, Aster] \<and>
   search (add animal_shelter \<lparr>name = ''Rex'', type = ''dog'', breed = ''Pug'', is_available = True\<rparr>)
     None None = Inr seed_pets \<and>
   \<lparr>name = ''Rex'', type = ''dog'', breed = ''Pug'', is_available = True\<rparr>
     \<in> set (pets (add animal_shelter
         \<lparr>name = ''Rex'', type = ''dog'', breed = ''Pug'', is_available = True\<rparr>)) \<and>
   matches (Some ''dog'') (Some [])
     \<lparr>name = ''Rex'', type = ''dog'', breed = ''Pug'', is_available = True\<rparr>"
  by code_simp

text \<open>
  Claim C8. On the seed of \<^verbatim>\<open>ProjectDriver.run\<close>, before any adoption,
  \<^verbatim>\<open>search("dog", "")\<close> returns Luna, Teddy, Charlie and Aster, in this order.
\<close>

theorem search_dog_on_seed:
  "search animal_shelter (Some ''dog'') (Some []) = Inr [Luna, Teddy, Charlie, Aster]"
proof -
  have "count animal_shelter \<le> length (pets animal_shelter)"
    by (simp add: animal_shelter_def)
  then show ?thesis
    by (simp add: search_counted matches_def wildcard_def seed_defs)
qed

section \<open>Adopting\<close>

text \<open>
  Claim C3 says that \<^verbatim>\<open>adopt(n)\<close> with a non-empty name marks every available pet whose
  name is \<open>n\<close> up to letter case and returns true exactly when there is one. The code at
  the seed followed by \<^verbatim>\<open>add(new Pet("Rex", "dog", "Pug", true))\<close>: \<^verbatim>\<open>adopt("rex")\<close> returns
  false and leaves the shelter as it was, Rex included, although Rex is in the array,
  is available and has that name up to letter case. The loop of \<^verbatim>\<open>adopt\<close> stops at
  \<^verbatim>\<open>count\<close>, which \<^verbatim>\<open>add\<close> leaves at eight: the defect of claim C1. Among the pets below
  \<^verbatim>\<open>count\<close> the call marks every match and reports whether there was one
  (\<open>adopt_nth\<close>, \<open>adopt_counted_fst\<close>).
\<close>

theorem added_pet_not_adopted:
  "adopt (add animal_shelter \<lparr>name = ''Rex'', type = ''dog'', breed = ''Pug'', is_available = True\<rparr>)
     (Some ''rex'') =
     (Inr False,
      add animal_shelter \<lparr>name = ''Rex'', type = ''dog'', breed = ''Pug'', is_available = True\<rparr>) \<and>
   (\<exists>p\<in>set (pets (add animal_shelter
        \<lparr>name = ''Rex'', type = ''dog'', breed = ''Pug'', is_available = True\<rparr>)).
      toLowerCase (name p) = toLowerCase ''rex'' \<and> is_available p)"
  by code_simp

text \<open>
  Claim C4 says that \<^verbatim>\<open>adopt(name)\<close> returns false exactly when the name is empty or
  absent, or no pet has it, or every pet with it is adopted, and that a false return
  leaves the shelter unchanged. The code at the seed followed by
  \<^verbatim>\<open>add(new Pet("Rex", "dog", "Pug", true))\<close>: \<^verbatim>\<open>adopt("Rex")\<close> returns false, although the
  name is not empty and the array holds a pet with that name that is not adopted; the
  loop stops at \<^verbatim>\<open>count\<close>, which \<^verbatim>\<open>add\<close> leaves at eight: the defect of claim C1. The
  other half of the claim holds for every shelter (\<open>adopt_false_unchanged\<close>).
\<close>

theorem adopt_false_though_added_pet_available:
  "fst (adopt (add animal_shelter
          \<lparr>name = ''Rex'', type = ''dog'', breed = ''Pug'', is_available = True\<rparr>)
        (Some ''Rex'')) = Inr False \<and>
   truthy (Some ''Rex'') \<and>
   (\<exists>p\<in>set (pets (add animal_shelter
        \<lparr>name = ''Rex'', type = ''dog'', breed = ''Pug'', is_available = True\<rparr>)).
      toLowerCase (name p) = toLowerCase ''Rex'' \<and> is_available p)"
  by code_simp

text \<open>
  Claim C6. For every name and every shelter, when \<^verbatim>\<open>adopt(n)\<close> returns true, the call
  \<^verbatim>\<open>adopt(n)\<close> that follows at once returns false: the pets it matched are no longer
  available.
\<close>

theorem adopt_again_fails:
  assumes "fst (adopt s n) = Inr True"
  shows "fst (adopt (snd (adopt s n)) n) = Inr False"
proof -
  have tr: "truthy n"
    using assms by (cases "truthy n") (simp_all add: adopt_falsy)
  have le: "count s \<le> length (pets s)"
    using assms adopt_out_of_range [OF tr, of s] by (cases "count s \<le> length (pets s)") auto
  let ?s' = "snd (adopt s n)"
  have le': "count ?s' \<le> length (pets ?s')"
    using le by (simp add: adopt_count adopt_length)
  have "\<not> adopt_cond n (pets ?s' ! j)" if "j < count s" for j
    using that le by (simp add: adopt_nth adopt_cond_flipped)
  then have "\<not> (\<exists>j<count ?s'. adopt_cond n (pets ?s' ! j))"
    by (simp add: adopt_count)
  with adopt_counted_fst [OF le', of n] show ?thesis by simp
qed

theorem adopt_again_fails_witness:
  "fst (adopt animal_shelter (Some ''luna'')) = Inr True \<and>
   fst (adopt (snd (adopt animal_shelter (Some ''luna''))) (Some ''luna'')) = Inr False"
proof -
  have h: "fst (adopt animal_shelter (Some ''luna'')) = Inr True"
    by code_simp
  from h adopt_again_fails [OF h] show ?thesis by simp
qed

section \<open>What the operations leave in place\<close>

lemma kept_refl: "kept ps ps"
  by (simp add: kept_def)

lemma kept_trans: "kept ps ps' \<Longrightarrow> kept ps' ps'' \<Longrightarrow> kept ps ps''"
  unfolding kept_def by (metis (no_types, lifting) le_trans less_le_trans)

lemma kept_add: "kept (pets s) (pets (add s pet))"
  by (simp add: kept_def add_def nth_append)

lemma kept_adopt: "kept (pets s) (pets (snd (adopt s n)))"
  by (simp add: kept_def adopt_length adopt_nth)

lemma kept_perform: "kept (pets s) (pets (perform s op))"
  by (cases op) (simp_all add: kept_refl kept_add kept_adopt)

lemma kept_foldl: "kept (pets s) (pets (foldl perform s ops))"
proof (induction ops arbitrary: s)
  case Nil
  show ?case by (simp add: kept_refl)
next
  case (Cons op ops)
  have "kept (pets s) (pets (perform s op))"
    by (rule kept_perform)
  moreover have "kept (pets (perform s op)) (pets (foldl perform (perform s op) ops))"
    by (rule Cons.IH)
  ultimately show ?case
    by (simp add: kept_trans)
qed

text \<open>
  Claim C7. After any sequence of the operations \<^verbatim>\<open>add\<close>, \<^verbatim>\<open>search\<close>, \<^verbatim>\<open>adopt\<close> and the
  listing, the array is at least as long as it was, every pet that was in it is at its
  index with its name, type and breed, and a pet that was not available is still not
  available: no pet is removed and no flag goes from false back to true. For \<^verbatim>\<open>adopt\<close>
  this covers the calls that throw.
\<close>

theorem pets_never_removed_never_relisted:
  "length (pets s) \<le> length (pets (foldl perform s ops)) \<and>
   (\<forall>i<length (pets s).
      name (pets (foldl perform s ops) ! i) = name (pets s ! i) \<and>
      type (pets (foldl perform s ops) ! i) = type (pets s ! i) \<and>
      breed (pets (foldl perform s ops) ! i) = breed (pets s ! i) \<and>
      (\<not> is_available (pets s ! i) \<longrightarrow> \<not> is_available (pets (foldl perform s ops) ! i)))"
  using kept_foldl [of s ops] unfolding kept_def by blast

theorem pets_never_removed_never_relisted_witness:
  "length (pets (foldl perform \<lparr>pets = [Luna, Teddy\<lparr>is_available := False\<rparr>], count = 2\<rparr>
      [Adopt (Some ''luna''), Add Aster, Search None None, Adopt (Some ''teddy''), Listing])) \<ge> 2 \<and>
   name (pets (foldl perform \<lparr>pets = [Luna, Teddy\<lparr>is_available := False\<rparr>], count = 2\<rparr>
      [Adopt (Some ''luna''), Add Aster, Search None None, Adopt (Some ''teddy''), Listing]) ! 1) = ''Teddy'' \<and>
   \<not> is_available (pets (foldl perform \<lparr>pets = [Luna, Teddy\<lparr>is_available := False\<rparr>], count = 2\<rparr>
      [Adopt (Some ''luna''), Add Aster, Search None None, Adopt (Some ''teddy''), Listing]) ! 1)"
proof -
  let ?s = "\<lparr>pets = [Luna, Teddy\<lparr>is_available := False\<rparr>], count = 2\<rparr>"
  let ?ops = "[Adopt (Some ''luna''), Add Aster, Search None None, Adopt (Some ''teddy''), Listing]"
  have "length (pets ?s) = 2" "name (pets ?s ! 1) = ''Teddy''" "\<not> is_available (pets ?s ! 1)"
    by (simp_all add: Teddy_def)
  with pets_never_removed_never_relisted [of ?s ?ops] show ?thesis
    by (metis one_less_numeral_iff semiring_norm(76))
qed

section \<open>Pets appended by \<^verbatim>\<open>add\<close>\<close>

lemma foldl_add: "foldl add s qs = s\<lparr>pets := pets s @ qs\<rparr>"
  by (induction qs arbitrary: s) (simp_all add: add_def)

lemma perform_count: "count (perform s op) = count s"
  by (cases op) (simp_all add: add_def adopt_count)

lemma foldl_perform_count: "count (foldl perform s ops) = count s"
  by (induction ops arbitrary: s) (simp_all add: perform_count)

lemma display_loop_in_range:
  "cnt \<le> length ps \<Longrightarrow>
   display_loop ps cnt i out =
     (Inr (), out @ map pet_line (filter is_available (take (cnt - i) (drop i ps))))"
proof (induction ps cnt i out rule: display_loop.induct)
  case (1 ps cnt i out)
  show ?case
  proof (cases "i < cnt")
    case False
    then show ?thesis by (simp add: display_loop.simps)
  next
    case True
    with "1.prems" have il: "i < length ps" by simp
    from True have ci: "cnt - i = Suc (cnt - (i + 1))" by simp
    have split: "take (cnt - i) (drop i ps) = ps ! i # take (cnt - (i + 1)) (drop (i + 1) ps)"
      using il by (simp only: ci) (simp add: Cons_nth_drop_Suc [symmetric])
    have "display_loop ps cnt i out =
          display_loop ps cnt (i + 1) (if is_available (ps ! i) then out @ [pet_line (ps ! i)] else out)"
      using True il by (subst display_loop.simps) (simp add: Let_def)
    also have "\<dots> = (Inr (), (if is_available (ps ! i) then out @ [pet_line (ps ! i)] else out)
                         @ map pet_line (filter is_available (take (cnt - (i + 1)) (drop (i + 1) ps))))"
      using "1.IH" [OF True il refl "1.prems"] .
    also have "\<dots> = (Inr (), out @ map pet_line (filter is_available (take (cnt - i) (drop i ps))))"
      by (simp add: split)
    finally show ?thesis .
  qed
qed

lemma display_counted:
  assumes "count s \<le> length (pets s)"
  shows "displayShelterAnimals s out =
           (Inr (), out @ ''\<newline>Pets available for adoption:'' #
              (if count s = 0 then [''No pets are currently available.'']
               else map pet_line (filter is_available (take (count s) (pets s)))))"
  using display_loop_in_range [OF assms, of 0]
  by (simp add: displayShelterAnimals_def Let_def)

lemma adopt_appended:
  assumes "count s \<le> length (pets s)"
  shows "adopt (s\<lparr>pets := pets s @ qs\<rparr>) n = (fst (adopt s n), (snd (adopt s n))\<lparr>pets := pets (snd (adopt s n)) @ qs\<rparr>)"
proof -
  let ?t = "s\<lparr>pets := pets s @ qs\<rparr>"
  have le: "count ?t \<le> length (pets ?t)"
    using assms by simp
  have "adopt_cond n ((pets s @ qs) ! j) = adopt_cond n (pets s ! j)" if "j < count s" for j
    using that assms by (simp add: nth_append)
  then have "(\<exists>j<count s. adopt_cond n ((pets s @ qs) ! j)) = (\<exists>j<count s. adopt_cond n (pets s ! j))"
    by (simp cong: conj_cong)
  then have r: "fst (adopt ?t n) = fst (adopt s n)"
    using adopt_counted_fst [OF le, of n] adopt_counted_fst [OF assms, of n] by simp
  have "pets (snd (adopt ?t n)) = pets (snd (adopt s n)) @ qs"
  proof (rule nth_equalityI)
    show "length (pets (snd (adopt ?t n))) = length (pets (snd (adopt s n)) @ qs)"
      by (simp add: adopt_length)
  next
    fix j
    assume "j < length (pets (snd (adopt ?t n)))"
    then have j: "j < length (pets s @ qs)"
      by (simp add: adopt_length)
    show "pets (snd (adopt ?t n)) ! j = (pets (snd (adopt s n)) @ qs) ! j"
    proof (cases "j < length (pets s)")
      case True
      then show ?thesis
        using adopt_nth [of j ?t n] adopt_nth [of j s n]
        by (simp add: nth_append adopt_length)
    next
      case False
      with assms have "\<not> j < count s" by simp
      with False j show ?thesis
        using adopt_nth [of j ?t n]
        by (simp add: nth_append adopt_length)
    qed
  qed
  then have w: "snd (adopt ?t n) = (snd (adopt s n))\<lparr>pets := pets (snd (adopt s n)) @ qs\<rparr>"
    by (simp add: adopt_def split_beta)
  from r w show ?thesis
    by (simp add: prod_eq_iff)
qed

lemma perform_keeps_count_within:
  "count s \<le> length (pets s) \<Longrightarrow> count (perform s op) \<le> length (pets (perform s op))"
  by (cases op) (simp_all add: add_def adopt_count adopt_length)

lemma foldl_perform_keeps_count_within:
  "count s \<le> length (pets s) \<Longrightarrow>
   count (foldl perform s ops) \<le> length (pets (foldl perform s ops))"
  by (induction ops arbitrary: s) (simp_all add: perform_keeps_count_within)

text \<open>
  Claim C10. No operation writes \<^verbatim>\<open>count\<close>: after any sequence of operations it is the
  value given to the constructor. \<^verbatim>\<open>search\<close>, \<^verbatim>\<open>adopt\<close> and the listing read the first
  \<^verbatim>\<open>count\<close> elements of the array only. So, in a shelter whose array has these \<^verbatim>\<open>count\<close>
  elements (\<^verbatim>\<open>ProjectDriver.run\<close> constructs it with \<^verbatim>\<open>pets.length\<close>, and no operation
  changes that, as shown just above), pets appended by \<^verbatim>\<open>add\<close> change nothing:
  \<^verbatim>\<open>search\<close> returns what it returned without them, \<^verbatim>\<open>adopt\<close> returns what it returned
  without them and leaves each of them as it was appended, and the listing prints what
  it printed without them. (An array shorter than \<^verbatim>\<open>count\<close> makes the three loops throw
  until \<^verbatim>\<open>add\<close> has filled the slots below \<^verbatim>\<open>count\<close>.)
\<close>

theorem appended_pets_stay_beyond_count:
  assumes "count s \<le> length (pets s)"
  shows "count (foldl perform s ops) = count s \<and>
         count (foldl add s qs) = count s \<and>
         pets (foldl add s qs) = pets s @ qs \<and>
         search (foldl add s qs) t b = search s t b \<and>
         adopt (foldl add s qs) n = (fst (adopt s n), foldl add (snd (adopt s n)) qs) \<and>
         displayShelterAnimals (foldl add s qs) out = displayShelterAnimals s out"
proof -
  have le: "count (s\<lparr>pets := pets s @ qs\<rparr>) \<le> length (pets (s\<lparr>pets := pets s @ qs\<rparr>))"
    using assms by simp
  have "search (s\<lparr>pets := pets s @ qs\<rparr>) t b = search s t b"
    using assms by (simp add: search_counted [OF le] search_counted [OF assms])
  moreover have "displayShelterAnimals (s\<lparr>pets := pets s @ qs\<rparr>) out = displayShelterAnimals s out"
    using assms by (simp add: display_counted [OF le] display_counted [OF assms])
  ultimately show ?thesis
    by (simp add: foldl_add foldl_perform_count adopt_appended [OF assms])
qed

theorem appended_pets_stay_beyond_count_witness:
  "count animal_shelter \<le> length (pets animal_shelter) \<and>
   search (foldl add animal_shelter
       [\<lparr>name = ''Rex'', type = ''dog'', breed = ''Pug'', is_available = True\<rparr>])
     (Some ''dog'') (Some []) = Inr [Luna, Teddy, Charlie, Aster] \<and>
   fst (adopt (foldl add animal_shelter
       [\<lparr>name = ''Rex'', type = ''dog'', breed = ''Pug'', is_available = True\<rparr>])
     (Some ''Rex'')) = Inr False"
proof -
  have wf: "count animal_shelter \<le> length (pets animal_shelter)"
    by (simp add: animal_shelter_def)
  have wf': "count animal_shelter = length (pets animal_shelter)"
    by (simp add: animal_shelter_def)
  have ps: "pets animal_shelter = seed_pets"
    by (simp add: animal_shelter_def)
  have s: "search animal_shelter (Some ''dog'') (Some []) = Inr [Luna, Teddy, Charlie, Aster]"
    by (simp add: search_counted [OF wf] wf' ps matches_def wildcard_def
        seed_pets_def Luna_def Teddy_def Charlie_def Aster_def
        Goldie_def Lisa_def Timmy_def Oliver_def)
  have a: "fst (adopt animal_shelter (Some ''Rex'')) = Inr False"
    by code_simp
  from wf s a appended_pets_stay_beyond_count [OF wf,
      of _ "[\<lparr>name = ''Rex'', type = ''dog'', breed = ''Pug'', is_available = True\<rparr>]"]
  show ?thesis by simp
qed

section \<open>The prompt loop\<close>

text \<open>
  Every shelter the program reaches from the seed has \<^verbatim>\<open>count\<close> equal to the length of
  its array: the loop never calls \<^verbatim>\<open>add\<close>, and \<^verbatim>\<open>adopt\<close> changes neither.
\<close>

lemma adopt_keeps_count_length:
  assumes "adopt s n = (r, s')" and "count s = length (pets s)"
  shows "count s' = length (pets s')"
  using adopt_count [of s n] adopt_length [of s n] assms by simp

lemma callback_keeps_count_length:
  assumes "count s = length (pets s)" and "callback p result s out = (c', s', out')"
  shows "count s' = length (pets s')"
proof (cases p)
  case Ask
  with assms show ?thesis
    by (auto simp: ask_callback_def ask_def askType_def askName_def
        split: option.splits if_splits prod.splits sum.splits)
next
  case AskType
  with assms show ?thesis
    by (auto simp: askType_callback_def askBreed_def split: option.splits if_splits)
next
  case (AskBreed t)
  with assms show ?thesis
    by (auto simp: askBreed_callback_def ask_def split: option.splits sum.splits)
next
  case AskName
  with assms show ?thesis
    by (auto simp: askName_callback_def ask_def
        split: option.splits if_splits prod.splits sum.splits
        dest: adopt_keeps_count_length)
qed

lemma run_keeps_count_length:
  assumes "count s = length (pets s)" and "run (c, s, out) results = (c', s', out')"
  shows "count s' = length (pets s')"
  using assms
proof (induction results arbitrary: c s out)
  case Nil
  then show ?case by simp
next
  case (Cons result results)
  show ?case
  proof (cases c)
    case (Waiting p)
    obtain c1 s1 out1 where cb: "callback p result s out = (c1, s1, out1)"
      by (cases "callback p result s out") auto
    from callback_keeps_count_length [OF Cons.prems(1) cb]
    have "count s1 = length (pets s1)" .
    moreover from Cons.prems(2) Waiting cb have "run (c1, s1, out1) results = (c', s', out')"
      by simp
    ultimately show ?thesis by (rule Cons.IH)
  next
    case Ended
    with Cons.prems show ?thesis by simp
  next
    case (Thrown e)
    with Cons.prems show ?thesis by simp
  qed
qed

lemma interact_keeps_count_length:
  assumes "interact animal_shelter results = (c', s', out')"
  shows "count s' = length (pets s')"
proof -
  have "count animal_shelter = length (pets animal_shelter)"
    by (simp add: animal_shelter_def)
  from run_keeps_count_length [OF this] assms show ?thesis
    by (simp add: interact_def ask_def)
qed

text \<open>
  Claim C1 says that a pet appended by \<^verbatim>\<open>add\<close> is listed exactly when it is available.
  The code at the seed followed by \<^verbatim>\<open>add(new Pet("Rex", "dog", "Pug", true))\<close>: the listing
  prints the eight pets of the seed and no line for Rex, who is available. \<^verbatim>\<open>add\<close>
  pushes the pet and leaves \<^verbatim>\<open>count\<close>, which the class comment describes as the number
  of pets added so far, at eight.
\<close>

theorem added_pet_missing_from_listing:
  "displayShelterAnimals
     (add animal_shelter \<lparr>name = ''Rex'', type = ''dog'', breed = ''Pug'', is_available = True\<rparr>) [] =
   (Inr (),
    [''\<newline>Pets available for adoption:'',
     ''Luna, dog, Golden Retriever'', ''Teddy, dog, Labrador'',
     ''Charlie, dog, Golden Retriever'', ''Aster, dog, Husky'',
     ''Goldie, cat, Shorthair'', ''Lisa, cat, Longhair'',
     ''Timmy, cat, Siamese'', ''Oliver, cat, Shorthair''])"
  by code_simp

text \<open>
  Claim C5 says that menu option 1 prints the message that no pets are currently
  available on an empty roster and on a roster where every pet is adopted. The code:
  with the eight pets of the seed all adopted, option 1 prints the heading and then the
  menu, and no message; the message is printed when \<^verbatim>\<open>count\<close> is 0 only. The search of
  menu option 2 with both filters empty does print its message on that same roster.
\<close>

theorem listing_all_adopted_prints_no_message:
  "ask_callback (Some ''1'')
     \<lparr>pets = map (\<lambda>pet. pet\<lparr>is_available := False\<rparr>) seed_pets, count = length seed_pets\<rparr> [] =
   (Waiting Ask,
    \<lparr>pets = map (\<lambda>pet. pet\<lparr>is_available := False\<rparr>) seed_pets, count = length seed_pets\<rparr>,
    [''\<newline>Pets available for adoption:'', instructions]) \<and>
   ask_callback (Some ''1'') \<lparr>pets = [], count = 0\<rparr> [] =
   (Waiting Ask, \<lparr>pets = [], count = 0\<rparr>,
    [''\<newline>Pets available for adoption:'', ''No pets are currently available.'', instructions]) \<and>
   askBreed_callback [] (Some [])
     \<lparr>pets = map (\<lambda>pet. pet\<lparr>is_available := False\<rparr>) seed_pets, count = length seed_pets\<rparr> [] =
   (Waiting Ask,
    \<lparr>pets = map (\<lambda>pet. pet\<lparr>is_available := False\<rparr>) seed_pets, count = length seed_pets\<rparr>,
    [''No pets are available.'', instructions])"
  by code_simp

text \<open>
  Claim C9 says that an undefined result is handled without a crash at every prompt.
  The code: the callbacks of \<^verbatim>\<open>askType\<close> and \<^verbatim>\<open>askBreed\<close> read a property of
  \<^verbatim>\<open>result\<close> with no guard and throw a TypeError on an undefined result; the callbacks
  of \<^verbatim>\<open>ask\<close> and \<^verbatim>\<open>askName\<close> test \<^verbatim>\<open>result\<close> first, the one prompting again, the other
  ending the program.
\<close>

theorem undefined_result_throws_in_search_prompts:
  "fst (interact animal_shelter [Some ''2'', None]) = Thrown TypeError \<and>
   fst (interact animal_shelter [Some ''2'', Some ''dog'', None]) = Thrown TypeError \<and>
   fst (interact animal_shelter [None]) = Waiting Ask \<and>
   fst (interact animal_shelter [Some ''3'', None]) = Ended"
  by code_simp

end
